theory Spec2Isabelle
  imports Main
begin

section \<open>Question/answer segmentation of OCR text lines\<close>

text \<open>
  A shallow embedding of \<^verbatim>\<open>separate_qa_with_regex\<close> from
  \<^verbatim>\<open>Question_Answer_segmentation.py\<close>.

  Strings are lists of 8-bit characters, read as the code points 0 to 255 of a Python
  \<^verbatim>\<open>str\<close>. On that range the case-insensitive matching of the three marker patterns is
  plain ASCII case folding, and the classes \<^verbatim>\<open>\s\<close> and \<^verbatim>\<open>\w\<close> are the ones
  written out below. The OCR stage \<^verbatim>\<open>source_pipeline\<close> is a parameter: a function from
  an image path to the recognised text.
\<close>

subsection \<open>Python's string and regular-expression primitives\<close>

text \<open>\<^verbatim>\<open>\s\<close> and \<^verbatim>\<open>str.strip()\<close>: tab to carriage return, the four separators
  0x1C to 0x1F, the space, NEL (0x85) and the no-break space (0xA0).\<close>

definition is_space :: "char \<Rightarrow> bool" where
  "is_space c =
     (let n = (of_char c :: nat)
      in (9 \<le> n \<and> n \<le> 13) \<or> (28 \<le> n \<and> n \<le> 32) \<or> n = 133 \<or> n = 160)"

text \<open>\<^verbatim>\<open>[a-z]\<close> under \<^verbatim>\<open>re.IGNORECASE\<close>.\<close>

definition is_letter :: "char \<Rightarrow> bool" where
  "is_letter c =
     (let n = (of_char c :: nat)
      in (65 \<le> n \<and> n \<le> 90) \<or> (97 \<le> n \<and> n \<le> 122))"

text \<open>\<^verbatim>\<open>\w\<close>: alphanumeric characters and the underscore.\<close>

definition is_word :: "char \<Rightarrow> bool" where
  "is_word c =
     (let n = (of_char c :: nat)
      in (48 \<le> n \<and> n \<le> 57) \<or> (65 \<le> n \<and> n \<le> 90) \<or> n = 95 \<or> (97 \<le> n \<and> n \<le> 122)
         \<or> n = 170 \<or> n = 178 \<or> n = 179 \<or> n = 181 \<or> n = 185 \<or> n = 186
         \<or> (188 \<le> n \<and> n \<le> 190) \<or> (192 \<le> n \<and> n \<le> 214)
         \<or> (216 \<le> n \<and> n \<le> 246) \<or> (248 \<le> n \<and> n \<le> 255))"

text \<open>A bracketed class given by its members.\<close>

definition one_of :: "string \<Rightarrow> char \<Rightarrow> bool" where
  "one_of cls c = (c \<in> set cls)"

text \<open>\<^verbatim>\<open>str.strip()\<close>.\<close>

definition strip :: "string \<Rightarrow> string" where
  "strip s = rev (dropWhile is_space (rev (dropWhile is_space s)))"

text \<open>\<^verbatim>\<open>str.endswith('?')\<close>.\<close>

definition endswith_qmark :: "string \<Rightarrow> bool" where
  "endswith_qmark s = (s \<noteq> [] \<and> last s = CHR ''?'')"

text \<open>\<^verbatim>\<open>text.split('\n')\<close>: the empty text gives one empty line.\<close>

fun split_nl :: "string \<Rightarrow> string list" where
  "split_nl [] = [[]]"
| "split_nl (c # cs) =
     (if c = CHR 0x0A then [] # split_nl cs
      else (case split_nl cs of
              [] \<Rightarrow> [[c]]
            | l # ls \<Rightarrow> (c # l) # ls))"

text \<open>\<^verbatim>\<open>re.sub(r'\s+', ' ', s)\<close>: every maximal run of white space becomes one space.\<close>

function sub_ws :: "string \<Rightarrow> string" where
  "sub_ws [] = []"
| "sub_ws (c # cs) =
     (if is_space c then CHR '' '' # sub_ws (dropWhile is_space cs)
      else c # sub_ws cs)"
  by pat_completeness auto
termination
  by (relation "measure length") (auto simp: length_dropWhile_le less_Suc_eq_le)

text \<open>\<^verbatim>\<open>re.sub(r'[^\w\s\?\.\,\:\;\(\)\-]', '', line)\<close>: only the allowed characters
  stay.\<close>

definition allowed :: "char \<Rightarrow> bool" where
  "allowed c = (is_word c \<or> is_space c \<or> one_of ''?.,:;()-'' c)"

definition clean :: "string \<Rightarrow> string" where
  "clean line = filter allowed line"

text \<open>
  The marker patterns are alternatives anchored at the start of the line; each alternative is
  a sequence of single-character classes and greedy starred classes. \<open>match_items\<close> returns
  the text left after the match that a backtracking matcher finds first.
\<close>

datatype item = One "char \<Rightarrow> bool" | Star "char \<Rightarrow> bool"

fun match_items :: "item list \<Rightarrow> string \<Rightarrow> string option" where
  "match_items [] s = Some s"
| "match_items (One P # is) [] = None"
| "match_items (One P # is) (c # cs) = (if P c then match_items is cs else None)"
| "match_items (Star P # is) [] = match_items is []"
| "match_items (Star P # is) (c # cs) =
     (if P c then
        (case match_items (Star P # is) cs of
           Some r \<Rightarrow> Some r
         | None \<Rightarrow> match_items is (c # cs))
      else match_items is (c # cs))"

fun match_alts :: "item list list \<Rightarrow> string \<Rightarrow> string option" where
  "match_alts [] s = None"
| "match_alts (a # as) s =
     (case match_items a s of
        Some r \<Rightarrow> Some r
      | None \<Rightarrow> match_alts as s)"

text \<open>\<^verbatim>\<open>re.match(p, line, re.IGNORECASE)\<close> as a truth value.\<close>

definition re_match :: "item list list \<Rightarrow> string \<Rightarrow> bool" where
  "re_match p line = (match_alts p line \<noteq> None)"

text \<open>\<^verbatim>\<open>re.sub(p, '', line, flags=re.IGNORECASE)\<close> for a pattern anchored at the start:
  only a match at position 0 can be removed.\<close>

definition re_sub_prefix :: "item list list \<Rightarrow> string \<Rightarrow> string" where
  "re_sub_prefix p line = (case match_alts p line of None \<Rightarrow> line | Some r \<Rightarrow> r)"

text \<open>\<^verbatim>\<open>[\.\)\:\-]\<close>\<close>

definition punct :: "char \<Rightarrow> bool" where
  "punct = one_of ''.):-''"

text \<open>\<^verbatim>\<open>q_markers = r'^[QqBb][\.\)\:\-]\s*'\<close>\<close>

definition q_markers :: "item list list" where
  "q_markers = [[One (one_of ''QqBb''), One punct, Star is_space]]"

text \<open>\<^verbatim>\<open>a_markers = r'^[Aa][\.\)\:\-]\s*|^[Aa]ns[\.\)\:\-]\s*|^[Aa]nswer[\.\)\:\-]\s*'\<close>\<close>

definition a_markers :: "item list list" where
  "a_markers =
     [[One (one_of ''Aa''), One punct, Star is_space],
      [One (one_of ''Aa''), One (one_of ''nN''), One (one_of ''sS''), One punct, Star is_space],
      [One (one_of ''Aa''), One (one_of ''nN''), One (one_of ''sS''), One (one_of ''wW''),
       One (one_of ''eE''), One (one_of ''rR''), One punct, Star is_space]]"

text \<open>\<^verbatim>\<open>subdivision = r'^\s*[a-z]\s*[\.\)\:]\s*|^\s*\([a-z]\)\s*|^\s*[uw]\s*\)'\<close>\<close>

definition subdivision :: "item list list" where
  "subdivision =
     [[Star is_space, One is_letter, Star is_space, One (one_of ''.):''), Star is_space],
      [Star is_space, One (one_of ''(''), One is_letter, One (one_of '')''), Star is_space],
      [Star is_space, One (one_of ''uwUW''), Star is_space, One (one_of '')'')]]"

subsection \<open>The classifier state\<close>

datatype error = KeyError string

record state =
  results :: "string \<rightharpoonup> string list"
  current_mode :: "string option"
  current_text :: string
  previous_line_was_empty :: bool

definition init_state :: state where
  "init_state =
     \<lparr>results = [''Questions'' \<mapsto> [], ''Answers'' \<mapsto> []],
      current_mode = None,
      current_text = [],
      previous_line_was_empty = False\<rparr>"

text \<open>Truth value of \<^verbatim>\<open>current_mode\<close>: \<^verbatim>\<open>None\<close> and the empty string are false.\<close>

definition truthy :: "string option \<Rightarrow> bool" where
  "truthy m = (case m of None \<Rightarrow> False | Some k \<Rightarrow> k \<noteq> [])"

definition bind_err :: "error + 'a \<Rightarrow> ('a \<Rightarrow> error + 'b) \<Rightarrow> error + 'b" where
  "bind_err r f = (case r of Inl e \<Rightarrow> Inl e | Inr x \<Rightarrow> f x)"

text \<open>\<^verbatim>\<open>results[current_mode].append(item)\<close>; a missing key raises.\<close>

definition append_result :: "state \<Rightarrow> string \<Rightarrow> string \<Rightarrow> error + state" where
  "append_result s k x =
     (case results s k of
        None \<Rightarrow> Inl (KeyError k)
      | Some xs \<Rightarrow> Inr (s\<lparr>results := (results s)(k \<mapsto> xs @ [x])\<rparr>))"

definition save_current_item :: "state \<Rightarrow> error + state" where
  "save_current_item s =
     (if current_text s \<noteq> [] \<and> truthy (current_mode s) then
        (let t = strip (sub_ws (current_text s)) in
         if t \<noteq> [] then
           (case current_mode s of
              None \<Rightarrow> Inr (s\<lparr>current_text := []\<rparr>)
            | Some k \<Rightarrow>
                bind_err (append_result s k t) (\<lambda>s1. Inr (s1\<lparr>current_text := []\<rparr>)))
         else Inr (s\<lparr>current_text := []\<rparr>))
      else Inr (s\<lparr>current_text := []\<rparr>))"

subsection \<open>One line\<close>

text \<open>The body of the inner loop for a line that survived stripping, the length test and
  cleaning: the rules in the order of the source.\<close>

definition classify :: "state \<Rightarrow> string \<Rightarrow> error + state" where
  "classify s line =
     (if endswith_qmark line then
        bind_err
          (if current_mode s = Some ''Answers'' \<and> current_text s \<noteq> []
           then save_current_item s else Inr s)
          (\<lambda>s1.
             if current_mode s1 = Some ''Questions'' \<and> current_text s1 \<noteq> []
                \<and> \<not> previous_line_was_empty s1
             then Inr (s1\<lparr>current_text := current_text s1 @ '' '' @ line,
                          previous_line_was_empty := False\<rparr>)
             else bind_err (save_current_item s1)
                    (\<lambda>s2. Inr (s2\<lparr>current_mode := Some ''Questions'',
                                    current_text := line,
                                    previous_line_was_empty := False\<rparr>)))
      else if re_match q_markers line then
        bind_err (save_current_item s)
          (\<lambda>s1. Inr (s1\<lparr>current_mode := Some ''Questions'',
                          current_text := strip (re_sub_prefix q_markers line),
                          previous_line_was_empty := False\<rparr>))
      else if re_match a_markers line then
        bind_err (save_current_item s)
          (\<lambda>s1. Inr (s1\<lparr>current_mode := Some ''Answers'',
                          current_text := strip (re_sub_prefix a_markers line),
                          previous_line_was_empty := False\<rparr>))
      else if re_match subdivision line then
        Inr (s\<lparr>current_text :=
                   (if current_text s \<noteq> [] then current_text s @ '' '' @ line else line),
                previous_line_was_empty := False\<rparr>)
      else if previous_line_was_empty s \<and> current_mode s = Some ''Questions''
              \<and> current_text s \<noteq> [] then
        bind_err (save_current_item s)
          (\<lambda>s1. Inr (s1\<lparr>current_mode := Some ''Answers'',
                          current_text := line,
                          previous_line_was_empty := False\<rparr>))
      else if truthy (current_mode s) then
        Inr (s\<lparr>current_text :=
                   (if current_text s \<noteq> [] then current_text s @ '' '' @ line else line),
                previous_line_was_empty := False\<rparr>)
      else
        Inr (s\<lparr>current_mode := Some ''Questions'',
                current_text := line,
                previous_line_was_empty := False\<rparr>))"

text \<open>The whole body of the inner loop, from the raw line.\<close>

definition process_line :: "state \<Rightarrow> string \<Rightarrow> error + state" where
  "process_line s original_line =
     (let line = strip original_line in
      if line = [] then Inr (s\<lparr>previous_line_was_empty := True\<rparr>)
      else if length line < 2 then Inr s
      else
        (let line = strip (clean line) in
         if line = [] then Inr (s\<lparr>previous_line_was_empty := True\<rparr>)
         else classify s line))"

subsection \<open>The loops\<close>

fun process_lines :: "state \<Rightarrow> string list \<Rightarrow> error + state" where
  "process_lines s [] = Inr s"
| "process_lines s (l # ls) = bind_err (process_line s l) (\<lambda>s1. process_lines s1 ls)"

text \<open>One iteration of the outer loop on the text of an image: its lines, then
  \<^verbatim>\<open>save_current_item()\<close>.\<close>

definition process_text :: "state \<Rightarrow> string \<Rightarrow> error + state" where
  "process_text s text = bind_err (process_lines s (split_nl text)) save_current_item"

fun process_texts :: "state \<Rightarrow> string list \<Rightarrow> error + state" where
  "process_texts s [] = Inr s"
| "process_texts s (t # ts) = bind_err (process_text s t) (\<lambda>s1. process_texts s1 ts)"

definition separate_qa_with_regex ::
  "('img \<Rightarrow> string) \<Rightarrow> 'img list \<Rightarrow> error + (string \<rightharpoonup> string list)" where
  "separate_qa_with_regex source_pipeline image_list =
     bind_err (process_texts init_state (map source_pipeline image_list))
       (\<lambda>s. Inr (results s))"

subsection \<open>Notions used in the statements\<close>

text \<open>A text in which white space occurs only as single spaces.\<close>

fun single_spaced :: "string \<Rightarrow> bool" where
  "single_spaced [] = True"
| "single_spaced (c # cs) =
     ((is_space c \<longrightarrow> c = CHR '' '' \<and> (cs = [] \<or> \<not> is_space (hd cs))) \<and> single_spaced cs)"

text \<open>An item that is not empty and that whitespace normalisation leaves as it is.\<close>

definition normal_item :: "string \<Rightarrow> bool" where
  "normal_item x = (x \<noteq> [] \<and> strip (sub_ws x) = x)"

text \<open>The values \<^verbatim>\<open>current_mode\<close> takes in the source.\<close>

definition mode_ok :: "string option \<Rightarrow> bool" where
  "mode_ok m = (m = None \<or> m = Some ''Questions'' \<or> m = Some ''Answers'')"

text \<open>The two keys of \<^verbatim>\<open>results\<close> are present.\<close>

definition has_keys :: "(string \<rightharpoonup> string list) \<Rightarrow> bool" where
  "has_keys r = (r ''Questions'' \<noteq> None \<and> r ''Answers'' \<noteq> None)"

definition valid :: "state \<Rightarrow> bool" where
  "valid s = (has_keys (results s) \<and> mode_ok (current_mode s))"

text \<open>Every list of \<open>r\<close> is still there in \<open>r'\<close>, with normalised items appended at its end.\<close>

definition extends :: "(string \<rightharpoonup> string list) \<Rightarrow> (string \<rightharpoonup> string list) \<Rightarrow> bool" where
  "extends r r' =
     (\<forall>k xs. r k = Some xs \<longrightarrow> (\<exists>new. r' k = Some (xs @ new) \<and> (\<forall>x \<in> set new. normal_item x)))"

text \<open>A cleaned line that no rule before the plain continuation claims, and one that only
  the subdivision rule claims.\<close>

definition plain_line :: "string \<Rightarrow> bool" where
  "plain_line line =
     (line \<noteq> [] \<and> \<not> endswith_qmark line \<and> \<not> re_match q_markers line
      \<and> \<not> re_match a_markers line \<and> \<not> re_match subdivision line)"

definition subdivision_line :: "string \<Rightarrow> bool" where
  "subdivision_line line =
     (\<not> endswith_qmark line \<and> \<not> re_match q_markers line
      \<and> \<not> re_match a_markers line \<and> re_match subdivision line)"

section \<open>Properties\<close>

subsection \<open>Whitespace normalisation\<close>

lemma bind_err_Inr [simp]: "bind_err (Inr x) f = f x"
  by (simp add: bind_err_def)

lemma bind_err_Inl [simp]: "bind_err (Inl e) f = Inl e"
  by (simp add: bind_err_def)

lemma dropWhile_hd_id: "xs = [] \<or> \<not> P (hd xs) \<Longrightarrow> dropWhile P xs = xs"
  by (cases xs) auto

lemma sub_ws_hd: "xs = [] \<or> \<not> is_space (hd xs) \<Longrightarrow> sub_ws xs = [] \<or> \<not> is_space (hd (sub_ws xs))"
  by (cases xs) auto

lemma dropWhile_hd_not: "dropWhile P xs = [] \<or> \<not> P (hd (dropWhile P xs))"
  by (induction xs) auto

lemma single_spaced_sub_ws: "single_spaced (sub_ws xs)"
proof (induction xs rule: sub_ws.induct)
  case 1
  show ?case by simp
next
  case (2 c cs)
  show ?case
  proof (cases "is_space c")
    case True
    have "sub_ws (dropWhile is_space cs) = [] \<or> \<not> is_space (hd (sub_ws (dropWhile is_space cs)))"
      by (rule sub_ws_hd) (rule dropWhile_hd_not)
    with True 2 show ?thesis by simp
  next
    case False
    with 2 show ?thesis by simp
  qed
qed

lemma sub_ws_fixed: "single_spaced xs \<Longrightarrow> sub_ws xs = xs"
  by (induction xs) (auto simp: dropWhile_hd_id)

lemma single_spaced_prefix: "single_spaced (xs @ ys) \<Longrightarrow> single_spaced xs"
  by (induction xs) (auto simp: hd_append split: if_splits)

lemma single_spaced_dropWhile: "single_spaced xs \<Longrightarrow> single_spaced (dropWhile P xs)"
  by (induction xs) auto

lemma strip_prefix: "\<exists>zs. dropWhile is_space xs = strip xs @ zs"
proof -
  have "rev (dropWhile is_space xs) =
          takeWhile is_space (rev (dropWhile is_space xs)) @ dropWhile is_space (rev (dropWhile is_space xs))"
    by simp
  then have "dropWhile is_space xs = strip xs @ rev (takeWhile is_space (rev (dropWhile is_space xs)))"
    unfolding strip_def by (metis rev_append rev_rev_ident)
  then show ?thesis ..
qed

lemma single_spaced_strip: "single_spaced xs \<Longrightarrow> single_spaced (strip xs)"
proof -
  assume a: "single_spaced xs"
  obtain zs where z: "dropWhile is_space xs = strip xs @ zs" using strip_prefix by blast
  from a have "single_spaced (dropWhile is_space xs)" by (rule single_spaced_dropWhile)
  with z show ?thesis by (simp add: single_spaced_prefix)
qed

lemma strip_ends: "strip xs \<noteq> [] \<Longrightarrow> \<not> is_space (hd (strip xs)) \<and> \<not> is_space (last (strip xs))"
proof -
  assume ne: "strip xs \<noteq> []"
  obtain zs where z: "dropWhile is_space xs = strip xs @ zs" using strip_prefix by blast
  have "\<not> is_space (hd (dropWhile is_space xs))"
    using dropWhile_hd_not [of is_space xs] ne z by auto
  with z ne have h: "\<not> is_space (hd (strip xs))" by simp
  have "\<not> is_space (hd (dropWhile is_space (rev (dropWhile is_space xs))))"
    using dropWhile_hd_not [of is_space "rev (dropWhile is_space xs)"] ne
    by (auto simp: strip_def)
  then have "\<not> is_space (last (strip xs))"
    using ne by (simp add: strip_def last_rev)
  with h show ?thesis by simp
qed

lemma strip_fixed: "xs = [] \<or> (\<not> is_space (hd xs) \<and> \<not> is_space (last xs)) \<Longrightarrow> strip xs = xs"
proof (cases xs)
  case Nil
  then show ?thesis by (simp add: strip_def)
next
  case (Cons a as)
  assume "xs = [] \<or> (\<not> is_space (hd xs) \<and> \<not> is_space (last xs))"
  with Cons have h: "\<not> is_space (hd xs)" and l: "\<not> is_space (last xs)" by auto
  from h have d: "dropWhile is_space xs = xs" by (simp add: dropWhile_hd_id)
  from Cons have "xs \<noteq> []" by simp
  with l have "\<not> is_space (hd (rev xs))" by (simp only: hd_rev not_False_eq_True)
  then have "dropWhile is_space (rev xs) = rev xs" by (simp add: dropWhile_hd_id)
  with d show ?thesis by (simp add: strip_def)
qed

lemma strip_strip: "strip (strip xs) = strip xs"
  by (rule strip_fixed) (use strip_ends in blast)

lemma normalise_fixed: "strip (sub_ws (strip (sub_ws xs))) = strip (sub_ws xs)"
proof -
  have "single_spaced (strip (sub_ws xs))"
    by (simp add: single_spaced_strip single_spaced_sub_ws)
  then have "sub_ws (strip (sub_ws xs)) = strip (sub_ws xs)" by (rule sub_ws_fixed)
  then show ?thesis by (simp add: strip_strip)
qed

subsection \<open>Finalisation and the rules keep the state well formed\<close>

lemma bind_err_eq_Inr: "bind_err r f = Inr y \<longleftrightarrow> (\<exists>x. r = Inr x \<and> f x = Inr y)"
  by (cases r) simp_all

lemma normal_item_normalise: "strip (sub_ws t) \<noteq> [] \<Longrightarrow> normal_item (strip (sub_ws t))"
  by (simp add: normal_item_def normalise_fixed)

lemma extends_refl: "extends r r"
  by (simp add: extends_def)

lemma extends_trans: "extends r1 r2 \<Longrightarrow> extends r2 r3 \<Longrightarrow> extends r1 r3"
  unfolding extends_def
proof (intro allI impI)
  fix k xs
  assume a: "\<forall>k xs. r1 k = Some xs \<longrightarrow> (\<exists>new. r2 k = Some (xs @ new) \<and> (\<forall>x\<in>set new. normal_item x))"
    and b: "\<forall>k xs. r2 k = Some xs \<longrightarrow> (\<exists>new. r3 k = Some (xs @ new) \<and> (\<forall>x\<in>set new. normal_item x))"
    and c: "r1 k = Some xs"
  from a c obtain n1 where n1: "r2 k = Some (xs @ n1)" "\<forall>x\<in>set n1. normal_item x" by blast
  from b n1 obtain n2 where n2: "r3 k = Some ((xs @ n1) @ n2)" "\<forall>x\<in>set n2. normal_item x" by blast
  from n1 n2 have "r3 k = Some (xs @ (n1 @ n2)) \<and> (\<forall>x\<in>set (n1 @ n2). normal_item x)" by auto
  then show "\<exists>new. r3 k = Some (xs @ new) \<and> (\<forall>x\<in>set new. normal_item x)" by blast
qed

lemma extends_has_keys: "has_keys r \<Longrightarrow> extends r r' \<Longrightarrow> has_keys r'"
  unfolding has_keys_def extends_def by fastforce

lemma extends_append: "r k = Some xs \<Longrightarrow> normal_item t \<Longrightarrow> extends r (r(k \<mapsto> xs @ [t]))"
  unfolding extends_def by auto

lemma save_current_item_None: "current_mode s = None \<Longrightarrow> save_current_item s = Inr (s\<lparr>current_text := []\<rparr>)"
  by (simp add: save_current_item_def truthy_def)

lemma save_current_item_blank: "strip (sub_ws (current_text s)) = [] \<Longrightarrow> save_current_item s = Inr (s\<lparr>current_text := []\<rparr>)"
  by (simp add: save_current_item_def)

lemma save_current_item_append:
  "current_mode s = Some k \<Longrightarrow> k \<noteq> [] \<Longrightarrow> results s k = Some xs \<Longrightarrow> strip (sub_ws (current_text s)) \<noteq> [] \<Longrightarrow>
   save_current_item s = Inr (s\<lparr>results := (results s)(k \<mapsto> xs @ [strip (sub_ws (current_text s))]), current_text := []\<rparr>)"
  by (auto simp add: save_current_item_def truthy_def append_result_def Let_def strip_def)

lemma save_current_item_valid:
  assumes "valid s"
  shows "\<exists>s'. save_current_item s = Inr s' \<and> extends (results s) (results s')
            \<and> current_mode s' = current_mode s \<and> current_text s' = []
            \<and> previous_line_was_empty s' = previous_line_was_empty s"
proof (cases "current_mode s = None \<or> strip (sub_ws (current_text s)) = []")
  case True
  then have "save_current_item s = Inr (s\<lparr>current_text := []\<rparr>)"
    using save_current_item_None save_current_item_blank by blast
  then show ?thesis by (simp add: extends_refl)
next
  case False
  with assms obtain k xs where k: "current_mode s = Some k" "k \<noteq> []" "results s k = Some xs"
    unfolding valid_def mode_ok_def has_keys_def by auto
  from False have t: "strip (sub_ws (current_text s)) \<noteq> []" by simp
  from k t have "save_current_item s = Inr (s\<lparr>results := (results s)(k \<mapsto> xs @ [strip (sub_ws (current_text s))]), current_text := []\<rparr>)"
    by (rule save_current_item_append)
  moreover have "extends (results s) ((results s)(k \<mapsto> xs @ [strip (sub_ws (current_text s))]))"
    using k(3) t by (intro extends_append normal_item_normalise)
  ultimately show ?thesis by simp
qed

lemma save_current_item_result:
  assumes "save_current_item s = Inr s'"
  shows "current_mode s' = current_mode s \<and> current_text s' = []
         \<and> previous_line_was_empty s' = previous_line_was_empty s
         \<and> (current_mode s = None \<longrightarrow> results s' = results s)"
  using assms
  by (auto simp: save_current_item_def truthy_def append_result_def Let_def bind_err_eq_Inr
           split: if_splits option.splits)

lemma classify_valid:
  assumes v: "valid s"
  shows "\<exists>s'. classify s line = Inr s' \<and> extends (results s) (results s') \<and> mode_ok (current_mode s')"
proof -
  from v have mo: "mode_ok (current_mode s)" by (simp add: valid_def)
  from v obtain s1 where s1: "save_current_item s = Inr s1" "extends (results s) (results s1)"
      "current_mode s1 = current_mode s" "current_text s1 = []"
    using save_current_item_valid by blast
  from v s1 have "valid s1" by (auto simp: valid_def dest: extends_has_keys)
  then obtain s2 where s2: "save_current_item s1 = Inr s2" "extends (results s1) (results s2)"
    using save_current_item_valid by blast
  from s1 s2 have e2: "extends (results s) (results s2)" by (blast intro: extends_trans)
  show ?thesis
    unfolding classify_def
    using s1 s2 e2 mo by (simp add: extends_refl mode_ok_def)
qed

lemma valid_step: "valid s \<Longrightarrow> extends (results s) (results s') \<Longrightarrow> mode_ok (current_mode s') \<Longrightarrow> valid s'"
  by (auto simp: valid_def dest: extends_has_keys)

lemma process_line_valid:
  assumes v: "valid s"
  shows "\<exists>s'. process_line s l = Inr s' \<and> extends (results s) (results s') \<and> mode_ok (current_mode s')"
proof -
  from v have mo: "mode_ok (current_mode s)" by (simp add: valid_def)
  obtain s' where "classify s (strip (clean (strip l))) = Inr s'"
      "extends (results s) (results s')" "mode_ok (current_mode s')"
    using classify_valid [OF v] by blast
  with mo show ?thesis
    by (simp add: process_line_def Let_def extends_refl)
qed

lemma process_lines_valid:
  "valid s \<Longrightarrow> \<exists>s'. process_lines s ls = Inr s' \<and> extends (results s) (results s') \<and> mode_ok (current_mode s')"
proof (induction ls arbitrary: s)
  case Nil
  then show ?case by (simp add: extends_refl valid_def)
next
  case (Cons l ls)
  from Cons.prems obtain s1 where s1: "process_line s l = Inr s1"
      "extends (results s) (results s1)" "mode_ok (current_mode s1)"
    using process_line_valid by blast
  with Cons.prems have "valid s1" by (blast intro: valid_step)
  then obtain s2 where s2: "process_lines s1 ls = Inr s2"
      "extends (results s1) (results s2)" "mode_ok (current_mode s2)"
    using Cons.IH by blast
  from s1 s2 have "extends (results s) (results s2)" by (blast intro: extends_trans)
  with s1 s2 show ?case by simp
qed

lemma process_text_valid:
  assumes v: "valid s"
  shows "\<exists>s'. process_text s t = Inr s' \<and> extends (results s) (results s') \<and> mode_ok (current_mode s')
             \<and> current_text s' = []"
proof -
  from v obtain s1 where s1: "process_lines s (split_nl t) = Inr s1"
      "extends (results s) (results s1)" "mode_ok (current_mode s1)"
    using process_lines_valid by blast
  with v have "valid s1" by (blast intro: valid_step)
  then obtain s2 where s2: "save_current_item s1 = Inr s2" "extends (results s1) (results s2)"
      "current_mode s2 = current_mode s1" "current_text s2 = []"
    using save_current_item_valid by blast
  from s1 s2 have "extends (results s) (results s2)" by (blast intro: extends_trans)
  with s1 s2 show ?thesis by (simp add: process_text_def)
qed

lemma process_texts_valid:
  "valid s \<Longrightarrow> \<exists>s'. process_texts s ts = Inr s' \<and> extends (results s) (results s') \<and> mode_ok (current_mode s')"
proof (induction ts arbitrary: s)
  case Nil
  then show ?case by (simp add: extends_refl valid_def)
next
  case (Cons t ts)
  from Cons.prems obtain s1 where s1: "process_text s t = Inr s1"
      "extends (results s) (results s1)" "mode_ok (current_mode s1)"
    using process_text_valid by blast
  with Cons.prems have "valid s1" by (blast intro: valid_step)
  then obtain s2 where s2: "process_texts s1 ts = Inr s2"
      "extends (results s1) (results s2)" "mode_ok (current_mode s2)"
    using Cons.IH by blast
  from s1 s2 have "extends (results s) (results s2)" by (blast intro: extends_trans)
  with s1 s2 show ?case by simp
qed

lemma valid_init_state: "valid init_state"
  by (simp add: valid_def has_keys_def mode_ok_def init_state_def)

subsection \<open>No error branch is reachable\<close>

text \<open>
  Claim C7. The classifier never raises: for every sequence of lines, and for every list of
  images and every text the OCR stage returns for them, processing from the initial state
  returns a state and \<^verbatim>\<open>separate_qa_with_regex\<close> returns its result; the only error branch
  of the model, the \<^verbatim>\<open>KeyError\<close> of \<^verbatim>\<open>results[current_mode]\<close>, is not reached.
\<close>

theorem classifier_never_raises:
  "(\<exists>s. process_lines init_state ls = Inr s)
   \<and> (\<exists>s. process_texts init_state ts = Inr s)
   \<and> (\<exists>r. separate_qa_with_regex source_pipeline image_list = Inr r)"
proof -
  obtain s1 where s1: "process_lines init_state ls = Inr s1"
    using process_lines_valid [OF valid_init_state] by blast
  obtain s2 where s2: "process_texts init_state ts = Inr s2"
    using process_texts_valid [OF valid_init_state] by blast
  obtain s3 where s3: "process_texts init_state (map source_pipeline image_list) = Inr s3"
    using process_texts_valid [OF valid_init_state] by blast
  from s1 s2 s3 show ?thesis by (simp add: separate_qa_with_regex_def)
qed

text \<open>Once set, the mode is never \<^verbatim>\<open>None\<close> again; while it is \<^verbatim>\<open>None\<close> nothing has
  been appended.\<close>

lemma classify_mode_None:
  assumes "classify s line = Inr s'" "current_mode s' = None"
  shows "current_mode s = None \<and> results s' = results s"
  using assms
  by (auto simp: classify_def bind_err_eq_Inr split: if_splits)

lemma process_line_mode_None:
  assumes "process_line s l = Inr s'" "current_mode s' = None"
  shows "current_mode s = None \<and> results s' = results s"
  using assms classify_mode_None
  by (auto simp: process_line_def Let_def split: if_splits)

lemma process_lines_mode_None:
  "process_lines s ls = Inr s' \<Longrightarrow> current_mode s' = None \<Longrightarrow> current_mode s = None \<and> results s' = results s"
proof (induction ls arbitrary: s)
  case Nil
  then show ?case by simp
next
  case (Cons l ls)
  from Cons.prems(1) obtain s1 where s1: "process_line s l = Inr s1" "process_lines s1 ls = Inr s'"
    by (auto simp: bind_err_eq_Inr)
  from Cons.IH [OF s1(2) Cons.prems(2)] have "current_mode s1 = None" "results s' = results s1" by simp_all
  with process_line_mode_None [OF s1(1)] show ?case by simp
qed

subsection \<open>Evaluation on concrete lines\<close>

text \<open>The definitions to unfold when a concrete input is run.\<close>

lemmas eval_defs =
  separate_qa_with_regex_def process_text_def process_line_def classify_def
  save_current_item_def append_result_def truthy_def init_state_def
  strip_def clean_def allowed_def is_space_def is_word_def is_letter_def one_of_def punct_def
  endswith_qmark_def re_match_def re_sub_prefix_def q_markers_def a_markers_def subdivision_def
  plain_line_def subdivision_line_def Let_def

lemma subdivision_line_nonempty: "subdivision_line line \<Longrightarrow> line \<noteq> []"
  by (auto simp: subdivision_line_def re_match_def subdivision_def)

lemma process_line_long:
  "2 \<le> length (strip raw) \<Longrightarrow> strip (clean (strip raw)) \<noteq> [] \<Longrightarrow>
   process_line s raw = classify s (strip (clean (strip raw)))"
  by (auto simp: process_line_def Let_def)

subsection \<open>The question-ending rule comes first\<close>

text \<open>
  Claim C2, as amended. For the single input line \<^verbatim>\<open>Q.) What is 2+2?\<close> and no prior state
  the question-ending rule fires before the question-marker rule, so the marker is not
  stripped; but cleaning has removed the plus sign before any rule is tried. The result has
  Questions equal to the one-element list with \<^verbatim>\<open>Q.) What is 22?\<close> and Answers empty.
  The OCR stage is the identity here: an image is given by its text.
\<close>

theorem question_mark_rule_keeps_marker:
  "separate_qa_with_regex id [''Q.) What is 2+2?'']
     = Inr [''Questions'' \<mapsto> [''Q.) What is 22?''], ''Answers'' \<mapsto> []]"
  by (simp add: eval_defs fun_upd_twist)

text \<open>The claim as stated, with the line unchanged in Questions, fails.\<close>

theorem plus_sign_is_cleaned_away:
  "separate_qa_with_regex id [''Q.) What is 2+2?'']
     \<noteq> Inr [''Questions'' \<mapsto> [''Q.) What is 2+2?''], ''Answers'' \<mapsto> []]"
proof
  assume a: "separate_qa_with_regex id [''Q.) What is 2+2?'']
     = Inr [''Questions'' \<mapsto> [''Q.) What is 2+2?''], ''Answers'' \<mapsto> []]"
  have "separate_qa_with_regex id [''Q.) What is 2+2?'']
     = Inr [''Questions'' \<mapsto> [''Q.) What is 22?''], ''Answers'' \<mapsto> []]"
    by (simp add: eval_defs fun_upd_twist)
  with a have "[''Questions'' \<mapsto> [''Q.) What is 22?''], ''Answers'' \<mapsto> []]
      = [''Questions'' \<mapsto> [''Q.) What is 2+2?''], ''Answers'' \<mapsto> ([]::string list)]"
    by simp
  then have "[''Questions'' \<mapsto> [''Q.) What is 22?''], ''Answers'' \<mapsto> []] ''Questions''
      = [''Questions'' \<mapsto> [''Q.) What is 2+2?''], ''Answers'' \<mapsto> ([]::string list)] ''Questions''"
    by (rule fun_cong)
  then show False by simp
qed

subsection \<open>Stripping the question marker\<close>

text \<open>
  Claim C6, evaluated. For the lines \<^verbatim>\<open>Q.) Define OS\<close>, an empty line and
  \<^verbatim>\<open>An operating system manages resources.\<close> the blank-transition rule finalises the
  question and switches to Answers, but the question pattern takes one punctuation character
  after the letter, so of the marker \<^verbatim>\<open>Q.)\<close> only \<^verbatim>\<open>Q.\<close> is stripped and the question
  is stored as \<^verbatim>\<open>) Define OS\<close>.
\<close>

theorem marker_strip_leaves_parenthesis:
  "separate_qa_with_regex id
     [''Q.) Define OS'' @ [CHR 0x0A] @ [CHR 0x0A] @ ''An operating system manages resources.'']
   = Inr [''Questions'' \<mapsto> ['') Define OS''],
          ''Answers'' \<mapsto> [''An operating system manages resources.'']]"
  by (simp add: eval_defs fun_upd_twist)

subsection \<open>The subdivision rule\<close>

text \<open>
  The subdivision rule is the fourth one tried, so a line that starts with a subpart marker
  does not always reach it. With the answer \<^verbatim>\<open>It is\<close> open, the line
  \<^verbatim>\<open>c) is it so?\<close> ends with a question mark: the first rule finalises the answer and
  starts a question. With the question \<^verbatim>\<open>Explain\<close> open, the line \<^verbatim>\<open>a) first part\<close>
  matches the answer pattern, which is tried case-insensitively: the question is finalised,
  the mode becomes Answers and the buffer starts without the marker.
\<close>

theorem earlier_rules_take_subdivision_lines:
  "process_lines init_state [''A: It is'', ''c) is it so?'']
   = Inr \<lparr>results = [''Questions'' \<mapsto> [], ''Answers'' \<mapsto> [''It is'']],
          current_mode = Some ''Questions'',
          current_text = ''c) is it so?'',
          previous_line_was_empty = False\<rparr>
   \<and> process_lines init_state [''Q: Explain'', ''a) first part'']
   = Inr \<lparr>results = [''Questions'' \<mapsto> [''Explain''], ''Answers'' \<mapsto> []],
          current_mode = Some ''Answers'',
          current_text = ''first part'',
          previous_line_was_empty = False\<rparr>"
  by (simp add: eval_defs fun_upd_twist)

text \<open>
  Claim C3, as amended. For every state with an open buffer, a line whose cleaned form does
  not end with a question mark, matches neither the question nor the answer pattern and
  matches the subdivision pattern is appended whole, marker included, to the buffer after a
  space; nothing is finalised, the mode is unchanged and the blank flag is cleared.
\<close>

theorem subdivision_rule_appends:
  assumes "current_text s \<noteq> []"
    and "2 \<le> length (strip raw)"
    and "subdivision_line (strip (clean (strip raw)))"
  shows "process_line s raw =
           Inr (s\<lparr>current_text := current_text s @ '' '' @ strip (clean (strip raw)),
                  previous_line_was_empty := False\<rparr>)"
proof -
  from assms(3) have ne: "strip (clean (strip raw)) \<noteq> []"
    by (rule subdivision_line_nonempty)
  from assms(2) ne have "process_line s raw = classify s (strip (clean (strip raw)))"
    by (rule process_line_long)
  with assms(1,3) show ?thesis
    by (simp add: classify_def subdivision_line_def)
qed

theorem subdivision_rule_appends_witness:
  "process_line (init_state\<lparr>current_mode := Some ''Questions'', current_text := ''Explain''\<rparr>)
       ''c) third part''
   = Inr (init_state\<lparr>current_mode := Some ''Questions'',
                      current_text := ''Explain c) third part''\<rparr>)"
proof -
  let ?s = "init_state\<lparr>current_mode := Some ''Questions'', current_text := ''Explain''\<rparr>"
  have h1: "current_text ?s \<noteq> []" by simp
  have h2: "2 \<le> length (strip ''c) third part'')" by (simp add: eval_defs)
  have h3: "subdivision_line (strip (clean (strip ''c) third part'')))" by (simp add: eval_defs)
  show ?thesis
    using subdivision_rule_appends [OF h1 h2 h3] by (simp add: eval_defs)
qed

subsection \<open>Short lines\<close>

text \<open>
  Claim C10. For every state, a line that reaches the length test, that is one whose stripped
  form is not empty and has length less than 2, such as \<^verbatim>\<open>-\<close> or \<^verbatim>\<open>?\<close>, is discarded:
  the mode, the buffer, both output lists and the blank flag are left exactly as they were.
\<close>

theorem short_line_discarded:
  "strip l \<noteq> [] \<Longrightarrow> length (strip l) < 2 \<Longrightarrow> process_line s l = Inr s"
  by (simp add: process_line_def Let_def)

theorem short_line_discarded_witness:
  "strip ''-'' \<noteq> [] \<and> length (strip ''-'') < 2
   \<and> process_line init_state ''-'' = Inr init_state
   \<and> strip '' ? '' \<noteq> [] \<and> length (strip '' ? '') < 2
   \<and> process_line
         (init_state\<lparr>current_mode := Some ''Questions'', current_text := ''Explain'',
                      previous_line_was_empty := True\<rparr>) '' ? ''
       = Inr (init_state\<lparr>current_mode := Some ''Questions'', current_text := ''Explain'',
                          previous_line_was_empty := True\<rparr>)"
proof -
  have h1: "strip ''-'' \<noteq> []" by (simp add: eval_defs)
  have h2: "length (strip ''-'') < 2" by (simp add: eval_defs)
  have h3: "strip '' ? '' \<noteq> []" by (simp add: eval_defs)
  have h4: "length (strip '' ? '') < 2" by (simp add: eval_defs)
  show ?thesis
    using h1 h2 h3 h4 short_line_discarded [OF h1 h2, of init_state]
      short_line_discarded [OF h3 h4,
        of "init_state\<lparr>current_mode := Some ''Questions'', current_text := ''Explain'',
                         previous_line_was_empty := True\<rparr>"]
    by simp
qed

subsection \<open>An image with no text\<close>

text \<open>
  The empty text splits into one empty line, not into zero lines: processing it from the
  initial state sets the blank flag, which processing no line leaves unset.
\<close>

theorem empty_text_sets_flag:
  "process_lines init_state [] = Inr init_state
   \<and> process_text init_state [] = Inr (init_state\<lparr>previous_line_was_empty := True\<rparr>)
   \<and> \<not> previous_line_was_empty init_state"
  by (simp add: eval_defs)

lemma text_update_same: "current_text s = [] \<Longrightarrow> s\<lparr>current_text := []\<rparr> = s"
  by (cases s) simp

text \<open>
  Claim C9, as amended. For every starting state, processing an image whose text is the empty
  string is processing one blank line and then the finalisation that ends every image. In
  every state in which both output lists exist and the mode is one the source sets, this
  raises no error and returns a state with the blank flag set, the mode as it was and the
  buffer empty. When the buffer is empty at the start, as it is at every image boundary, the
  mode, the buffer and both output lists are unchanged and only the blank flag is set.
\<close>

theorem empty_text_is_one_blank_line:
  "process_text s [] = save_current_item (s\<lparr>previous_line_was_empty := True\<rparr>)
   \<and> (valid s \<longrightarrow>
        (\<exists>s'. process_text s [] = Inr s' \<and> previous_line_was_empty s'
              \<and> current_mode s' = current_mode s \<and> current_text s' = []))
   \<and> (current_text s = [] \<longrightarrow>
        process_text s [] = Inr (s\<lparr>previous_line_was_empty := True\<rparr>))"
proof -
  have a: "process_text s [] = save_current_item (s\<lparr>previous_line_was_empty := True\<rparr>)"
    by (simp add: process_text_def process_line_def strip_def)
  have b: "\<exists>s'. process_text s [] = Inr s' \<and> previous_line_was_empty s'
              \<and> current_mode s' = current_mode s \<and> current_text s' = []"
    if v: "valid s"
  proof -
    from v have "valid (s\<lparr>previous_line_was_empty := True\<rparr>)" by (simp add: valid_def)
    from save_current_item_valid [OF this] obtain s' where
      "save_current_item (s\<lparr>previous_line_was_empty := True\<rparr>) = Inr s'"
      "current_mode s' = current_mode s" "current_text s' = []" "previous_line_was_empty s'"
      by auto
    with a show ?thesis by simp
  qed
  have c: "current_text s = [] \<Longrightarrow>
      save_current_item (s\<lparr>previous_line_was_empty := True\<rparr>) = Inr (s\<lparr>previous_line_was_empty := True\<rparr>)"
    by (simp add: save_current_item_def text_update_same)
  from a b c show ?thesis by simp
qed

theorem empty_text_is_one_blank_line_witness:
  "current_text init_state = [] \<and> valid init_state
   \<and> process_text init_state [] = Inr (init_state\<lparr>previous_line_was_empty := True\<rparr>)
   \<and> valid (init_state\<lparr>current_mode := Some ''Questions'', current_text := ''What is''\<rparr>)
   \<and> process_text (init_state\<lparr>current_mode := Some ''Questions'', current_text := ''What is''\<rparr>) []
       = Inr (init_state\<lparr>results := [''Questions'' \<mapsto> [''What is''], ''Answers'' \<mapsto> []],
                          current_mode := Some ''Questions'',
                          previous_line_was_empty := True\<rparr>)"
proof -
  let ?open = "init_state\<lparr>current_mode := Some ''Questions'', current_text := ''What is''\<rparr>"
  have h: "current_text init_state = []" by (simp add: init_state_def)
  have v: "valid init_state" by (rule valid_init_state)
  have w: "valid ?open" by (simp add: valid_def has_keys_def mode_ok_def init_state_def)
  from empty_text_is_one_blank_line [of init_state] h
  have a: "process_text init_state [] = Inr (init_state\<lparr>previous_line_was_empty := True\<rparr>)"
    by blast
  from empty_text_is_one_blank_line [of ?open] w
  have "\<exists>s'. process_text ?open [] = Inr s' \<and> previous_line_was_empty s'" by blast
  then have b: "process_text ?open [] =
      Inr (init_state\<lparr>results := [''Questions'' \<mapsto> [''What is''], ''Answers'' \<mapsto> []],
                         current_mode := Some ''Questions'',
                         previous_line_was_empty := True\<rparr>)"
    by (simp add: eval_defs fun_upd_twist)
  from h v w a b show ?thesis by simp
qed

subsection \<open>Image boundaries\<close>




subsection \<open>A subdivision line with no mode\<close>

text \<open>
  Claim C5. A line that only the subdivision rule claims, processed while the mode is
  \<^verbatim>\<open>None\<close>, goes into the buffer and the mode stays \<^verbatim>\<open>None\<close>. If the lines after it
  leave the mode \<^verbatim>\<open>None\<close> as well, finalisation empties the buffer and appends nothing:
  both output lists are what they were before the line. The single input line
  \<^verbatim>\<open>(c) something\<close> gives two empty output lists.
\<close>

theorem modeless_subdivision_is_dropped:
  assumes "current_mode s = None"
    and "2 \<le> length (strip raw)"
    and "subdivision_line (strip (clean (strip raw)))"
    and "process_lines
           (s\<lparr>current_text :=
                 (if current_text s \<noteq> [] then current_text s @ '' '' @ strip (clean (strip raw))
                  else strip (clean (strip raw))),
              previous_line_was_empty := False\<rparr>) later = Inr s2"
    and "current_mode s2 = None"
  shows "process_line s raw =
           Inr (s\<lparr>current_text :=
                     (if current_text s \<noteq> [] then current_text s @ '' '' @ strip (clean (strip raw))
                      else strip (clean (strip raw))),
                  previous_line_was_empty := False\<rparr>)
         \<and> save_current_item s2 = Inr (s2\<lparr>current_text := []\<rparr>)
         \<and> results s2 = results s
         \<and> separate_qa_with_regex id [''(c) something'']
             = Inr [''Questions'' \<mapsto> [], ''Answers'' \<mapsto> []]"
proof -
  from assms(3) have ne: "strip (clean (strip raw)) \<noteq> []"
    by (rule subdivision_line_nonempty)
  from assms(2) ne have "process_line s raw = classify s (strip (clean (strip raw)))"
    by (rule process_line_long)
  with assms(3) have A: "process_line s raw =
           Inr (s\<lparr>current_text :=
                     (if current_text s \<noteq> [] then current_text s @ '' '' @ strip (clean (strip raw))
                      else strip (clean (strip raw))),
                  previous_line_was_empty := False\<rparr>)"
    by (simp add: classify_def subdivision_line_def)
  from assms(5) have B: "save_current_item s2 = Inr (s2\<lparr>current_text := []\<rparr>)"
    by (rule save_current_item_None)
  from process_lines_mode_None [OF assms(4,5)] have C: "results s2 = results s" by simp
  have D: "separate_qa_with_regex id [''(c) something'']
             = Inr [''Questions'' \<mapsto> [], ''Answers'' \<mapsto> []]"
    by (simp add: eval_defs)
  from A B C D show ?thesis by simp
qed

theorem modeless_subdivision_is_dropped_witness:
  "process_line init_state ''(c) something''
     = Inr (init_state\<lparr>current_text := ''(c) something''\<rparr>)
   \<and> process_lines (init_state\<lparr>current_text := ''(c) something''\<rparr>) ['''', ''(d) more'']
     = Inr (init_state\<lparr>current_text := ''(c) something (d) more''\<rparr>)
   \<and> save_current_item (init_state\<lparr>current_text := ''(c) something (d) more''\<rparr>)
     = Inr init_state"
proof -
  let ?s2 = "init_state\<lparr>current_text := ''(c) something (d) more''\<rparr>"
  have h1: "current_mode init_state = None" by (simp add: init_state_def)
  have h2: "2 \<le> length (strip ''(c) something'')" by (simp add: eval_defs)
  have h3: "subdivision_line (strip (clean (strip ''(c) something'')))" by (simp add: eval_defs)
  have h4: "process_lines
           (init_state\<lparr>current_text :=
                 (if current_text init_state \<noteq> []
                  then current_text init_state @ '' '' @ strip (clean (strip ''(c) something''))
                  else strip (clean (strip ''(c) something''))),
              previous_line_was_empty := False\<rparr>) ['''', ''(d) more''] = Inr ?s2"
    by (simp add: eval_defs)
  have h5: "current_mode ?s2 = None" by (simp add: init_state_def)
  show ?thesis
    using modeless_subdivision_is_dropped [OF h1 h2 h3 h4 h5] h4
    by (simp add: eval_defs)
qed

subsection \<open>Mode and buffer\<close>

text \<open>
  The mode and the emptiness of the buffer are independent. After the image
  \<^verbatim>\<open>Q: Define OS\<close> has been finalised the mode is still Questions and the buffer is
  empty; after the line \<^verbatim>\<open>(c) something\<close> the mode is \<^verbatim>\<open>None\<close> and the buffer is not
  empty.
\<close>

theorem mode_and_buffer_disagree:
  "process_text init_state ''Q: Define OS''
     = Inr \<lparr>results = [''Questions'' \<mapsto> [''Define OS''], ''Answers'' \<mapsto> []],
            current_mode = Some ''Questions'',
            current_text = [],
            previous_line_was_empty = False\<rparr>
   \<and> process_lines init_state [''(c) something'']
     = Inr \<lparr>results = [''Questions'' \<mapsto> [], ''Answers'' \<mapsto> []],
            current_mode = None,
            current_text = ''(c) something'',
            previous_line_was_empty = False\<rparr>"
  by (simp add: eval_defs fun_upd_twist)

lemma process_text_mode_None:
  assumes "process_text s t = Inr s'" "current_mode s' = None"
  shows "current_mode s = None \<and> results s' = results s"
proof -
  from assms(1) obtain s1 where s1: "process_lines s (split_nl t) = Inr s1" "save_current_item s1 = Inr s'"
    by (auto simp: process_text_def bind_err_eq_Inr)
  from save_current_item_result [OF s1(2)] assms(2)
  have "current_mode s1 = None" "results s' = results s1" by simp_all
  with process_lines_mode_None [OF s1(1)] show ?thesis by simp
qed

lemma process_texts_mode_None:
  "process_texts s ts = Inr s' \<Longrightarrow> current_mode s' = None \<Longrightarrow> current_mode s = None \<and> results s' = results s"
proof (induction ts arbitrary: s)
  case Nil
  then show ?case by simp
next
  case (Cons t ts)
  from Cons.prems(1) obtain s1 where s1: "process_text s t = Inr s1" "process_texts s1 ts = Inr s'"
    by (auto simp: bind_err_eq_Inr)
  from Cons.IH [OF s1(2) Cons.prems(2)] have "current_mode s1 = None" "results s' = results s1" by simp_all
  with process_text_mode_None [OF s1(1)] show ?case by simp
qed

text \<open>
  Claim C4, as amended. In every state reached from the initial state by processing whole
  images and then any sequence of lines, the mode is \<^verbatim>\<open>None\<close>, Questions or Answers;
  while it is \<^verbatim>\<open>None\<close> both output lists are empty; and finalisation succeeds, empties
  the buffer and leaves the mode as it was, so the mode is never reset to \<^verbatim>\<open>None\<close>.
\<close>

theorem mode_invariant:
  assumes "process_texts init_state ts = Inr s0"
    and "process_lines s0 ls = Inr s"
  shows "mode_ok (current_mode s)
         \<and> (current_mode s = None \<longrightarrow>
              results s ''Questions'' = Some [] \<and> results s ''Answers'' = Some [])
         \<and> (\<exists>s'. save_current_item s = Inr s' \<and> current_text s' = []
                    \<and> current_mode s' = current_mode s)"
proof -
  obtain t0 where t0: "process_texts init_state ts = Inr t0" "extends (results init_state) (results t0)"
      "mode_ok (current_mode t0)"
    using process_texts_valid [OF valid_init_state] by blast
  with assms(1) have v0: "valid s0" using valid_init_state by (auto intro: valid_step)
  then obtain t1 where t1: "process_lines s0 ls = Inr t1" "extends (results s0) (results t1)"
      "mode_ok (current_mode t1)"
    using process_lines_valid by blast
  with assms(2) v0 have v: "valid s" and m: "mode_ok (current_mode s)" by (auto intro: valid_step)
  have n: "current_mode s = None \<longrightarrow>
              results s ''Questions'' = Some [] \<and> results s ''Answers'' = Some []"
  proof
    assume a: "current_mode s = None"
    from process_lines_mode_None [OF assms(2) a] have b: "current_mode s0 = None" "results s = results s0"
      by simp_all
    from process_texts_mode_None [OF assms(1) b(1)] have "results s0 = results init_state" by simp
    with b show "results s ''Questions'' = Some [] \<and> results s ''Answers'' = Some []"
      by (simp add: init_state_def)
  qed
  from save_current_item_valid [OF v] have
    "\<exists>s'. save_current_item s = Inr s' \<and> current_text s' = [] \<and> current_mode s' = current_mode s"
    by blast
  with m n show ?thesis by blast
qed

theorem mode_invariant_witness:
  "mode_ok (Some ''Answers'')
   \<and> save_current_item
        \<lparr>results = [''Questions'' \<mapsto> [''Define OS''], ''Answers'' \<mapsto> []],
         current_mode = Some ''Answers'',
         current_text = ''It manages resources.'',
         previous_line_was_empty = False\<rparr>
     = Inr \<lparr>results = [''Questions'' \<mapsto> [''Define OS''],
                       ''Answers'' \<mapsto> [''It manages resources.'']],
            current_mode = Some ''Answers'',
            current_text = [],
            previous_line_was_empty = False\<rparr>"
proof -
  let ?before = "\<lparr>results = [''Questions'' \<mapsto> [''Define OS''], ''Answers'' \<mapsto> []],
         current_mode = Some ''Questions'',
         current_text = [],
         previous_line_was_empty = False\<rparr>"
  let ?after = "\<lparr>results = [''Questions'' \<mapsto> [''Define OS''], ''Answers'' \<mapsto> []],
         current_mode = Some ''Answers'',
         current_text = ''It manages resources.'',
         previous_line_was_empty = False\<rparr>"
  have h1: "process_texts init_state [''Q: Define OS''] = Inr ?before"
    by (simp add: eval_defs fun_upd_twist)
  have h2: "process_lines ?before [''A: It manages resources.''] = Inr ?after"
    by (simp add: eval_defs fun_upd_twist)
  show ?thesis
    using mode_invariant [OF h1 h2]
    by (simp add: eval_defs mode_ok_def fun_upd_twist)
qed

subsection \<open>The output lists only grow\<close>

lemma normalise_blank: "\<forall>c \<in> set t. is_space c \<Longrightarrow> strip (sub_ws t) = []"
proof (cases t)
  case Nil
  then show ?thesis by (simp add: strip_def)
next
  case (Cons c cs)
  assume a: "\<forall>c \<in> set t. is_space c"
  with Cons have d: "dropWhile is_space cs = []" by simp
  from a Cons have "is_space c" by simp
  with Cons have "sub_ws t = CHR '' '' # sub_ws (dropWhile is_space cs)" by simp
  also have "\<dots> = '' ''" by (simp only: d sub_ws.simps)
  finally have "sub_ws t = '' ''" .
  then show ?thesis by (simp add: strip_def is_space_def)
qed

lemma extends_lists:
  assumes "extends r r'" "r ''Questions'' = Some qs" "r ''Answers'' = Some ans"
  shows "\<exists>nq na. r' ''Questions'' = Some (qs @ nq) \<and> r' ''Answers'' = Some (ans @ na)
           \<and> (\<forall>x \<in> set (nq @ na). x \<noteq> [] \<and> strip (sub_ws x) = x)"
proof -
  from assms(1,2) obtain nq where nq: "r' ''Questions'' = Some (qs @ nq)" "\<forall>x \<in> set nq. normal_item x"
    unfolding extends_def by blast
  from assms(1,3) obtain na where na: "r' ''Answers'' = Some (ans @ na)" "\<forall>x \<in> set na. normal_item x"
    unfolding extends_def by blast
  from nq na have "\<forall>x \<in> set (nq @ na). x \<noteq> [] \<and> strip (sub_ws x) = x"
    by (auto simp: normal_item_def)
  with nq(1) na(1) show ?thesis by blast
qed

text \<open>
  Claim C8. Finalising a buffer that is empty or white space only appends nothing. In a
  state whose two output lists exist and whose mode is one the source sets, every
  finalisation and every processed line return a state in which Questions and Answers are
  the old lists with items appended at the end, so their lengths do not decrease; and every
  appended item is non-empty and left unchanged by whitespace normalisation (runs collapsed
  to single spaces, then trimmed).
\<close>

theorem results_append_only:
  "((\<forall>c \<in> set (current_text s). is_space c) \<longrightarrow>
      save_current_item s = Inr (s\<lparr>current_text := []\<rparr>))
   \<and> (results s ''Questions'' = Some qs \<and> results s ''Answers'' = Some ans
        \<and> mode_ok (current_mode s) \<longrightarrow>
      (\<exists>s' nq na. save_current_item s = Inr s'
         \<and> results s' ''Questions'' = Some (qs @ nq)
         \<and> results s' ''Answers'' = Some (ans @ na)
         \<and> (\<forall>x \<in> set (nq @ na). x \<noteq> [] \<and> strip (sub_ws x) = x))
      \<and> (\<exists>s' nq na. process_line s l = Inr s'
         \<and> results s' ''Questions'' = Some (qs @ nq)
         \<and> results s' ''Answers'' = Some (ans @ na)
         \<and> length qs \<le> length (qs @ nq) \<and> length ans \<le> length (ans @ na)
         \<and> (\<forall>x \<in> set (nq @ na). x \<noteq> [] \<and> strip (sub_ws x) = x)))"
proof -
  have A: "(\<forall>c \<in> set (current_text s). is_space c) \<longrightarrow>
            save_current_item s = Inr (s\<lparr>current_text := []\<rparr>)"
    by (simp add: normalise_blank save_current_item_blank)
  have B: "(\<exists>s' nq na. save_current_item s = Inr s'
               \<and> results s' ''Questions'' = Some (qs @ nq)
               \<and> results s' ''Answers'' = Some (ans @ na)
               \<and> (\<forall>x \<in> set (nq @ na). x \<noteq> [] \<and> strip (sub_ws x) = x))
         \<and> (\<exists>s' nq na. process_line s l = Inr s'
               \<and> results s' ''Questions'' = Some (qs @ nq)
               \<and> results s' ''Answers'' = Some (ans @ na)
               \<and> length qs \<le> length (qs @ nq) \<and> length ans \<le> length (ans @ na)
               \<and> (\<forall>x \<in> set (nq @ na). x \<noteq> [] \<and> strip (sub_ws x) = x))"
    if q: "results s ''Questions'' = Some qs" and a: "results s ''Answers'' = Some ans"
      and m: "mode_ok (current_mode s)"
  proof -
    from q a m have v: "valid s" by (simp add: valid_def has_keys_def)
    obtain s1 where s1: "save_current_item s = Inr s1" "extends (results s) (results s1)"
      using save_current_item_valid [OF v] by blast
    from extends_lists [OF s1(2) q a] s1(1)
    have B1: "\<exists>s' nq na. save_current_item s = Inr s'
               \<and> results s' ''Questions'' = Some (qs @ nq)
               \<and> results s' ''Answers'' = Some (ans @ na)
               \<and> (\<forall>x \<in> set (nq @ na). x \<noteq> [] \<and> strip (sub_ws x) = x)"
      by blast
    obtain s2 where s2: "process_line s l = Inr s2" "extends (results s) (results s2)"
      using process_line_valid [OF v] by blast
    from extends_lists [OF s2(2) q a] obtain nq na where
      n: "results s2 ''Questions'' = Some (qs @ nq)" "results s2 ''Answers'' = Some (ans @ na)"
         "\<forall>x \<in> set (nq @ na). x \<noteq> [] \<and> strip (sub_ws x) = x"
      by blast
    have "length qs \<le> length (qs @ nq)" "length ans \<le> length (ans @ na)" by simp_all
    with s2(1) n have B2: "\<exists>s' nq na. process_line s l = Inr s'
               \<and> results s' ''Questions'' = Some (qs @ nq)
               \<and> results s' ''Answers'' = Some (ans @ na)
               \<and> length qs \<le> length (qs @ nq) \<and> length ans \<le> length (ans @ na)
               \<and> (\<forall>x \<in> set (nq @ na). x \<noteq> [] \<and> strip (sub_ws x) = x)"
      by blast
    from B1 B2 show ?thesis by blast
  qed
  from A B show ?thesis by blast
qed

theorem results_append_only_witness:
  "save_current_item (init_state\<lparr>current_mode := Some ''Questions'', current_text := ''   ''\<rparr>)
     = Inr (init_state\<lparr>current_mode := Some ''Questions''\<rparr>)
   \<and> (\<exists>s' nq na.
         process_line
           (init_state\<lparr>current_mode := Some ''Questions'', current_text := ''   ''\<rparr>)
           ''A: an  answer'' = Inr s'
         \<and> results s' ''Questions'' = Some nq \<and> results s' ''Answers'' = Some na)"
proof -
  let ?s = "init_state\<lparr>current_mode := Some ''Questions'', current_text := ''   ''\<rparr>"
  have h1: "results ?s ''Questions'' = Some []" by (simp add: init_state_def)
  have h2: "results ?s ''Answers'' = Some []" by (simp add: init_state_def)
  have h3: "mode_ok (current_mode ?s)" by (simp add: mode_ok_def)
  have h4: "\<forall>c \<in> set (current_text ?s). is_space c" by (simp add: is_space_def)
  from results_append_only [of ?s "[]" "[]" "''A: an  answer''"] h4
  have a: "save_current_item ?s = Inr (?s\<lparr>current_text := []\<rparr>)" by blast
  from results_append_only [of ?s "[]" "[]" "''A: an  answer''"] h1 h2 h3
  have b: "\<exists>s' nq na. process_line ?s ''A: an  answer'' = Inr s'
         \<and> results s' ''Questions'' = Some nq \<and> results s' ''Answers'' = Some na"
    by auto
  from a have "save_current_item ?s = Inr (init_state\<lparr>current_mode := Some ''Questions''\<rparr>)"
    by (simp add: init_state_def)
  with b show ?thesis by blast
qed

end
